theory Spec2Isabelle
  imports Main "HOL-Library.Word"
begin

unbundle bit_operations_syntax

section \<open>JavaScript values the driver handles\<close>

text \<open>
  A JavaScript string is modelled as a \<^typ>\<open>string\<close>: each character stands for one code
  unit, so the model covers the strings whose code units are below 256. Bytes are 8-bit
  words, a \<open>Buffer\<close> is a list of bytes.
\<close>

type_synonym byte = "8 word"
type_synonym bytes = "byte list"

text \<open>Values a backend call or a stream can throw.\<close>

datatype error = NotFound | Forbidden | NetworkError | ServerError nat

text \<open>
  An \<open>async\<close> method over a backend whose state has type \<open>'s\<close>: it either throws (\<open>Inl\<close>)
  or resolves (\<open>Inr\<close>), and leaves the backend in a new state.
\<close>

type_synonym ('s, 'a) async = "'s \<Rightarrow> (error + 'a) \<times> 's"

definition resolved :: "'a \<Rightarrow> ('s, 'a) async" where
  "resolved a s = (Inr a, s)"

definition await :: "('s, 'a) async \<Rightarrow> ('a \<Rightarrow> ('s, 'b) async) \<Rightarrow> ('s, 'b) async" where
  "await m k s = (case m s of (Inl e, s') \<Rightarrow> (Inl e, s') | (Inr a, s') \<Rightarrow> k a s')"

text \<open>\<open>try { body } catch { handler }\<close>.\<close>

definition try_catch :: "('s, 'a) async \<Rightarrow> ('s, 'a) async \<Rightarrow> ('s, 'a) async" where
  "try_catch body handler s =
     (case body s of (Inl e, s') \<Rightarrow> handler s' | (Inr a, s') \<Rightarrow> (Inr a, s'))"

subsection \<open>Strings\<close>

text \<open>\<open>s.replace(/\/$/, '')\<close>: one slash at the end of the string is removed.\<close>

definition strip_trailing_slash :: "string \<Rightarrow> string" where
  "strip_trailing_slash s = (if s \<noteq> [] \<and> last s = CHR ''/'' then butlast s else s)"

text \<open>\<open>s.replace(/^\//, '')\<close>: one slash at the start of the string is removed.\<close>

definition strip_leading_slash :: "string \<Rightarrow> string" where
  "strip_leading_slash s = (case s of [] \<Rightarrow> [] | c # cs \<Rightarrow> if c = CHR ''/'' then cs else s)"

text \<open>\<open>s.replace(/^\/+/, '')\<close>: the whole run of slashes at the start is removed.\<close>

definition strip_leading_slashes :: "string \<Rightarrow> string" where
  "strip_leading_slashes s = dropWhile (\<lambda>c. c = CHR ''/'') s"

text \<open>
  \<open>`${n}`\<close> for a number that is a non-negative safe integer, one up to
  \<open>Number.MAX_SAFE_INTEGER = 2^53 - 1\<close>: its decimal digits. Up to this bound every integer
  is a number of its own and is printed digit by digit. Above it a number is printed with
  the shortest digits that read back as the same number (\<open>2^60\<close> as \<open>1152921504606847000\<close>),
  and from \<open>10^21\<close> on with an exponent; \<open>Number_toString\<close> is not the code there, and
  nothing is stated about a range beyond the bound.
\<close>

definition MAX_SAFE_INTEGER :: nat where
  "MAX_SAFE_INTEGER = 2 ^ 53 - 1"

definition digit_char :: "nat \<Rightarrow> char" where
  "digit_char d = ''0123456789'' ! d"

fun Number_toString :: "nat \<Rightarrow> string" where
  "Number_toString n =
     (if n < 10 then [digit_char n] else Number_toString (n div 10) @ [digit_char (n mod 10)])"

declare Number_toString.simps [simp del]

text \<open>
  The decimal numeral of a natural number, said without the printer: a string of digits,
  not empty, without a leading zero unless it is \<open>0\<close> itself, whose value read in base ten
  is the number.
\<close>

definition is_digit :: "char \<Rightarrow> bool" where
  "is_digit c = (c \<in> set ''0123456789'')"

definition digit_value :: "char \<Rightarrow> nat" where
  "digit_value c = of_char c - 48"

definition digits_value :: "string \<Rightarrow> nat" where
  "digits_value ds = foldl (\<lambda>v c. 10 * v + digit_value c) 0 ds"

definition decimal_numeral :: "string \<Rightarrow> nat \<Rightarrow> bool" where
  "decimal_numeral ds n =
     (ds \<noteq> [] \<and> list_all is_digit ds \<and> (ds = ''0'' \<or> hd ds \<noteq> CHR ''0'') \<and>
      digits_value ds = n)"

subsection \<open>Binary data\<close>

text \<open>
  What a backend may hand over as file content, and what a stream may deliver as a chunk:
  a string, an \<open>ArrayBuffer\<close> or a \<open>Buffer\<close>.
\<close>

datatype raw = Text string | ArrayBuffer bytes | Buffer bytes

text \<open>UTF-8 of one code unit below 256: one byte below 128, two bytes from there on.\<close>

definition utf8_char :: "char \<Rightarrow> bytes" where
  "utf8_char c =
     (let u = (of_char c :: byte) in
      if u < 0x80 then [u] else [0xC0 OR drop_bit 6 u, 0x80 OR (u AND 0x3F)])"

definition utf8 :: "string \<Rightarrow> bytes" where
  "utf8 s = concat (map utf8_char s)"

text \<open>\<open>Buffer.from(x)\<close>: a string is encoded as UTF-8, binary data is copied.\<close>

fun Buffer_from :: "raw \<Rightarrow> bytes" where
  "Buffer_from (Text s) = utf8 s"
| "Buffer_from (ArrayBuffer a) = a"
| "Buffer_from (Buffer b) = b"

text \<open>
  \<open>buf.subarray(start, fin)\<close>: a negative index counts from the end, and both indices are
  clamped to the buffer.
\<close>

definition subarray :: "bytes \<Rightarrow> int \<Rightarrow> int \<Rightarrow> bytes" where
  "subarray buf start fin =
     (let n = int (length buf);
          b = (if start < 0 then max (n + start) 0 else min start n);
          e = (if fin < 0 then max (n + fin) 0 else min fin n)
      in take (nat (e - b)) (drop (nat b) buf))"

text \<open>
  A \<open>Readable\<close>: the chunks it delivers in order, and the error it ends with when it fails.
\<close>

datatype Readable = Readable (pieces: "raw list") (failure: "error option")

text \<open>\<open>Readable.from(buf)\<close> delivers the buffer as its only chunk.\<close>

definition Readable_from :: "bytes \<Rightarrow> Readable" where
  "Readable_from buf = Readable [Buffer buf] None"

text \<open>\<open>Buffer.alloc(n)\<close>: \<open>n\<close> zero bytes.\<close>

definition Buffer_alloc :: "nat \<Rightarrow> bytes" where
  "Buffer_alloc n = replicate n 0"

subsection \<open>Paths: \<open>relative\<close> of \<open>node:path\<close>\<close>

text \<open>
  \<open>relative(from, to)\<close> is a function of the Node runtime, in its POSIX flavour: both paths
  are resolved to absolute paths (against the working directory of the process when they
  are not absolute; empty and \<open>.\<close> segments disappear, a \<open>..\<close> segment removes the segment
  before it and is dropped at the top), their common leading segments are removed, and the
  result climbs with one \<open>..\<close> for every segment left of \<open>from\<close> before it descends along
  what is left of \<open>to\<close>. The working directory is the parameter \<open>cwd\<close>.
\<close>

text \<open>\<open>s.split('/')\<close>\<close>

fun split_path :: "string \<Rightarrow> string list" where
  "split_path [] = [[]]"
| "split_path (c # cs) =
     (if c = CHR ''/'' then [] # split_path cs
      else (c # hd (split_path cs)) # tl (split_path cs))"

text \<open>\<open>segments.join('/')\<close>\<close>

fun join_path :: "string list \<Rightarrow> string" where
  "join_path [] = []"
| "join_path [s] = s"
| "join_path (s # t # ss) = s @ ''/'' @ join_path (t # ss)"

text \<open>The segments of a path, read left to right onto a stack that never goes above the top.\<close>

fun normalize_segments :: "string list \<Rightarrow> string list \<Rightarrow> string list" where
  "normalize_segments acc [] = acc"
| "normalize_segments acc (s # ss) =
     (if s = [] \<or> s = ''.'' then normalize_segments acc ss
      else if s = ''..'' then normalize_segments (butlast acc) ss
      else normalize_segments (acc @ [s]) ss)"

definition is_absolute :: "string \<Rightarrow> bool" where
  "is_absolute p = (case p of [] \<Rightarrow> False | c # _ \<Rightarrow> c = CHR ''/'')"

text \<open>The segments of \<open>resolve(p)\<close>, which is \<open>/\<close> followed by their join.\<close>

definition resolve_segments :: "string \<Rightarrow> string \<Rightarrow> string list" where
  "resolve_segments cwd p =
     normalize_segments []
       (if is_absolute p then split_path p else split_path cwd @ split_path p)"

fun common_length :: "string list \<Rightarrow> string list \<Rightarrow> nat" where
  "common_length (x # xs) (y # ys) = (if x = y then Suc (common_length xs ys) else 0)"
| "common_length _ _ = 0"

definition relative :: "string \<Rightarrow> string \<Rightarrow> string \<Rightarrow> string" where
  "relative cwd from_path to_path =
     (if from_path = to_path then []
      else
        let f = resolve_segments cwd from_path;
            t = resolve_segments cwd to_path
        in if f = t then []
           else
             let k = common_length f t
             in join_path (replicate (length f - k) ''..'' @ drop k t))"

section \<open>The WebDAV client\<close>

text \<open>
  The client of the \<open>webdav\<close> package is an external collaborator: a record of its methods
  over a backend state \<open>'s\<close>, with \<open>'r\<close> the streams it opens. A reply comes either inside an
  envelope with a \<open>data\<close> field or bare; \<open>'data' in res ? res.data : res\<close> is \<open>unwrap\<close>.
  The method \<open>stat\<close> of the client is the field \<open>client_stat\<close>, since \<open>stat\<close> names the
  method of the driver.
\<close>

datatype 'a response = Detailed (data: 'a) | Bare 'a

fun unwrap :: "'a response \<Rightarrow> 'a" where
  "unwrap (Detailed d) = d"
| "unwrap (Bare x) = x"

datatype item_type = File | Directory

text \<open>
  What the driver reads of a \<open>FileStat\<close>. The driver does not rely on the declared types:
  \<open>size\<close> and \<open>lastmod\<close> may be missing (\<open>None\<close>), and \<open>filename\<close> is \<open>None\<close> when it is not
  a string.
\<close>

record FileStat =
  filename :: "string option"
  type :: item_type
  size :: "nat option"
  lastmod :: "string option"

record stream_options =
  headers :: "(string \<times> string) list"

datatype format = Binary_format | Text_format

record contents_options =
  format :: format

record directory_options =
  deep :: bool

datatype body = Stream Readable | Data bytes

record ('s, 'r) WebDAVClient =
  createReadStream :: "string \<Rightarrow> stream_options option \<Rightarrow> ('s, 'r) async"
  client_stat :: "string \<Rightarrow> ('s, FileStat response) async"
  moveFile :: "string \<Rightarrow> string \<Rightarrow> ('s, unit) async"
  copyFile :: "string \<Rightarrow> string \<Rightarrow> ('s, unit) async"
  putFileContents :: "string \<Rightarrow> body \<Rightarrow> ('s, bool) async"
  deleteFile :: "string \<Rightarrow> ('s, unit) async"
  getDirectoryContents :: "string \<Rightarrow> directory_options \<Rightarrow> ('s, FileStat list response) async"
  getFileContents :: "string \<Rightarrow> contents_options \<Rightarrow> ('s, raw response) async"

section \<open>The driver of \<open>index.ts\<close>\<close>

record DriverWebDAVConfig =
  baseUrl :: string
  username :: string
  password :: string
  root :: "string option"

record ('s, 'r) DriverWebDAV =
  client :: "('s, 'r) WebDAVClient"
  root :: string

text \<open>The constructor; \<open>createClient\<close> of the \<open>webdav\<close> package is its first argument.\<close>

definition new_DriverWebDAV ::
  "(string \<Rightarrow> string \<Rightarrow> string \<Rightarrow> ('s, 'r) WebDAVClient) \<Rightarrow> DriverWebDAVConfig \<Rightarrow> ('s, 'r) DriverWebDAV"
where
  "new_DriverWebDAV createClient config =
     \<lparr> client = createClient (baseUrl config) (username config) (password config),
       root = (case DriverWebDAVConfig.root config of None \<Rightarrow> ''/'' | Some r \<Rightarrow> r) \<rparr>"

definition fullPath :: "('s, 'r) DriverWebDAV \<Rightarrow> string \<Rightarrow> string" where
  "fullPath this filepath =
     strip_trailing_slash (root this) @ ''/'' @ strip_leading_slash filepath"

text \<open>
  The options of \<open>read\<close>: a range has a start and may have an end (\<open>end_opt\<close>), both byte
  offsets.
\<close>

record Range =
  start :: nat
  end_opt :: "nat option"

record ReadOptions =
  range :: "Range option"

definition read ::
  "('s, 'r) DriverWebDAV \<Rightarrow> string \<Rightarrow> ReadOptions option \<Rightarrow> ('s, 'r) async" where
  "read this filepath options =
     (let remotePath = fullPath this filepath in
      case (case options of None \<Rightarrow> None | Some opts \<Rightarrow> range opts) of
        Some r \<Rightarrow>
          let hdrs = [(''Range'',
                 ''bytes='' @ Number_toString (start r) @ ''-'' @
                 (case end_opt r of None \<Rightarrow> [] | Some e \<Rightarrow> Number_toString e))]
          in createReadStream (client this) remotePath (Some \<lparr> headers = hdrs \<rparr>)
      | None \<Rightarrow> createReadStream (client this) remotePath None)"

text \<open>
  A \<open>Date\<close>, kept symbolic: \<open>new Date(s)\<close> for a string and \<open>new Date()\<close>, the time of the
  call. The result of \<open>stat\<close> has the fields \<open>size\<close>, here \<open>meta_size\<close>, and \<open>modified\<close>.
\<close>

datatype Date = Date_of string | Date_now

record FileMetadata =
  meta_size :: nat
  modified :: Date

definition stat ::
  "('s, 'r) DriverWebDAV \<Rightarrow> string \<Rightarrow> ('s, FileMetadata) async" where
  "stat this filepath =
     (let remotePath = fullPath this filepath in
      await (client_stat (client this) remotePath) (\<lambda>st.
        let fileStat = unwrap st in
        resolved
          \<lparr> meta_size = (case size fileStat of None \<Rightarrow> 0 | Some n \<Rightarrow> n),
            modified = (case lastmod fileStat of
                          None \<Rightarrow> Date_now
                        | Some l \<Rightarrow> if l \<noteq> [] then Date_of l else Date_now) \<rparr>))"

definition exists :: "('s, 'r) DriverWebDAV \<Rightarrow> string \<Rightarrow> ('s, bool) async" where
  "exists this filepath =
     try_catch
       (let remotePath = fullPath this filepath in
        await (client_stat (client this) remotePath) (\<lambda>_. resolved True))
       (resolved False)"

definition move :: "('s, 'r) DriverWebDAV \<Rightarrow> string \<Rightarrow> string \<Rightarrow> ('s, unit) async" where
  "move this src dest =
     await (moveFile (client this) (fullPath this src) (fullPath this dest)) (\<lambda>_. resolved ())"

definition copy :: "('s, 'r) DriverWebDAV \<Rightarrow> string \<Rightarrow> string \<Rightarrow> ('s, unit) async" where
  "copy this src dest =
     await (copyFile (client this) (fullPath this src) (fullPath this dest)) (\<lambda>_. resolved ())"

text \<open>The method \<open>write\<close>.\<close>

definition write_file :: "('s, 'r) DriverWebDAV \<Rightarrow> string \<Rightarrow> Readable \<Rightarrow> ('s, unit) async" where
  "write_file this filepath content =
     (let remotePath = fullPath this filepath in
      await (putFileContents (client this) remotePath (Stream content)) (\<lambda>_. resolved ()))"

definition delete :: "('s, 'r) DriverWebDAV \<Rightarrow> string \<Rightarrow> ('s, unit) async" where
  "delete this filepath =
     await (deleteFile (client this) (fullPath this filepath)) (\<lambda>_. resolved ())"

text \<open>
  The body of the \<open>for\<close> loop of \<open>list\<close>: the values it yields, in order. \<open>cwd\<close> is the working
  directory \<open>relative\<close> resolves against.
\<close>

fun list_yields :: "('s, 'r) DriverWebDAV \<Rightarrow> string \<Rightarrow> FileStat list \<Rightarrow> string list" where
  "list_yields this cwd [] = []"
| "list_yields this cwd (item # items) =
     (if type item = File \<and> filename item \<noteq> None
      then (let relativePath = relative cwd (root this) (the (filename item))
            in strip_leading_slashes relativePath # list_yields this cwd items)
      else list_yields this cwd items)"

text \<open>\<open>list\<close>, run to its end; the prefix is \<open>None\<close> when the caller leaves it out.\<close>

definition list ::
  "('s, 'r) DriverWebDAV \<Rightarrow> string \<Rightarrow> string option \<Rightarrow> ('s, string list) async" where
  "list this cwd prefix_opt =
     (let prefix = (case prefix_opt of None \<Rightarrow> [] | Some p \<Rightarrow> p);
          remotePrefix = fullPath this prefix in
      await (getDirectoryContents (client this) remotePrefix \<lparr> deep = True \<rparr>) (\<lambda>res.
        let contents = unwrap res in
        resolved (list_yields this cwd contents)))"

subsection \<open>Chunked uploads\<close>

definition tusExtensions :: "string list" where
  "tusExtensions = [''creation'', ''termination'', ''expiration'']"

definition createChunkedUpload ::
  "('s, 'r) DriverWebDAV \<Rightarrow> string \<Rightarrow> 'ctx \<Rightarrow> ('s, 'ctx) async" where
  "createChunkedUpload this filepath ctx =
     (let emptyStream = Readable_from (Buffer_alloc 0) in
      await (write_file this filepath emptyStream) (\<lambda>_. resolved ctx))"

text \<open>
  \<open>for await (const chunk of content) chunks.push(Buffer.from(chunk))\<close>: the loop over the
  chunks the stream delivers, and the stream's error thrown out of the loop.
\<close>

fun push_chunks :: "raw list \<Rightarrow> bytes list \<Rightarrow> bytes list" where
  "push_chunks [] chunks = chunks"
| "push_chunks (chunk # rest) chunks = push_chunks rest (chunks @ [Buffer_from chunk])"

definition for_await :: "Readable \<Rightarrow> ('s, bytes list) async" where
  "for_await content s =
     (case failure content of
        Some e \<Rightarrow> (Inl e, s)
      | None \<Rightarrow> (Inr (push_chunks (pieces content) []), s))"

text \<open>\<open>Buffer.concat\<close> is \<^const>\<open>concat\<close>; \<open>new Uint8Array(a)\<close> views the bytes of \<open>a\<close>.\<close>

definition writeChunk ::
  "('s, 'r) DriverWebDAV \<Rightarrow> string \<Rightarrow> Readable \<Rightarrow> int \<Rightarrow> 'ctx \<Rightarrow> ('s, nat) async" where
  "writeChunk this filepath content offset ctx =
     (let remotePath = fullPath this filepath in
      await (getFileContents (client this) remotePath \<lparr> format = Binary_format \<rparr>) (\<lambda>existing.
        let existingRaw = unwrap existing;
            existingBuffer =
              (case existingRaw of
                 Text s \<Rightarrow> Buffer_from (Text s)
               | ArrayBuffer a \<Rightarrow> Buffer_from (ArrayBuffer a)
               | Buffer b \<Rightarrow> b)
        in await (for_await content) (\<lambda>chunks.
             let newContent = concat (subarray existingBuffer 0 offset # chunks)
             in await (putFileContents (client this) remotePath (Data newContent)) (\<lambda>_.
                  resolved (length newContent)))))"

definition deleteChunkedUpload ::
  "('s, 'r) DriverWebDAV \<Rightarrow> string \<Rightarrow> 'ctx \<Rightarrow> ('s, unit) async" where
  "deleteChunkedUpload this filepath ctx = await (delete this filepath) (\<lambda>_. resolved ())"

definition finishChunkedUpload ::
  "('s, 'r) DriverWebDAV \<Rightarrow> string \<Rightarrow> 'ctx \<Rightarrow> ('s, unit) async" where
  "finishChunkedUpload this filepath ctx = resolved ()"

section \<open>The driver of \<open>webdav.ts\<close>\<close>

text \<open>
  The second file declares a class of the same name with the base operations only. Its
  methods are translated from its own text and carry the suffix \<open>_plain\<close>.
\<close>

definition new_DriverWebDAV_plain ::
  "(string \<Rightarrow> string \<Rightarrow> string \<Rightarrow> ('s, 'r) WebDAVClient) \<Rightarrow> DriverWebDAVConfig \<Rightarrow> ('s, 'r) DriverWebDAV"
where
  "new_DriverWebDAV_plain createClient config =
     \<lparr> client = createClient (baseUrl config) (username config) (password config),
       root = (case DriverWebDAVConfig.root config of None \<Rightarrow> ''/'' | Some r \<Rightarrow> r) \<rparr>"

definition fullPath_plain :: "('s, 'r) DriverWebDAV \<Rightarrow> string \<Rightarrow> string" where
  "fullPath_plain this filepath =
     strip_trailing_slash (root this) @ ''/'' @ strip_leading_slash filepath"

definition read_plain ::
  "('s, 'r) DriverWebDAV \<Rightarrow> string \<Rightarrow> ReadOptions option \<Rightarrow> ('s, 'r) async" where
  "read_plain this filepath options =
     (let remotePath = fullPath_plain this filepath in
      case (case options of None \<Rightarrow> None | Some opts \<Rightarrow> range opts) of
        Some r \<Rightarrow>
          let hdrs = [(''Range'',
                 ''bytes='' @ Number_toString (start r) @ ''-'' @
                 (case end_opt r of None \<Rightarrow> [] | Some e \<Rightarrow> Number_toString e))]
          in createReadStream (client this) remotePath (Some \<lparr> headers = hdrs \<rparr>)
      | None \<Rightarrow> createReadStream (client this) remotePath None)"

definition stat_plain ::
  "('s, 'r) DriverWebDAV \<Rightarrow> string \<Rightarrow> ('s, FileMetadata) async" where
  "stat_plain this filepath =
     (let remotePath = fullPath_plain this filepath in
      await (client_stat (client this) remotePath) (\<lambda>st.
        let fileStat = unwrap st in
        resolved
          \<lparr> meta_size = (case size fileStat of None \<Rightarrow> 0 | Some n \<Rightarrow> n),
            modified = (case lastmod fileStat of
                          None \<Rightarrow> Date_now
                        | Some l \<Rightarrow> if l \<noteq> [] then Date_of l else Date_now) \<rparr>))"

definition exists_plain :: "('s, 'r) DriverWebDAV \<Rightarrow> string \<Rightarrow> ('s, bool) async" where
  "exists_plain this filepath =
     try_catch
       (let remotePath = fullPath_plain this filepath in
        await (client_stat (client this) remotePath) (\<lambda>_. resolved True))
       (resolved False)"

definition move_plain ::
  "('s, 'r) DriverWebDAV \<Rightarrow> string \<Rightarrow> string \<Rightarrow> ('s, unit) async" where
  "move_plain this src dest =
     await (moveFile (client this) (fullPath_plain this src) (fullPath_plain this dest))
       (\<lambda>_. resolved ())"

definition copy_plain ::
  "('s, 'r) DriverWebDAV \<Rightarrow> string \<Rightarrow> string \<Rightarrow> ('s, unit) async" where
  "copy_plain this src dest =
     await (copyFile (client this) (fullPath_plain this src) (fullPath_plain this dest))
       (\<lambda>_. resolved ())"

definition write_file_plain ::
  "('s, 'r) DriverWebDAV \<Rightarrow> string \<Rightarrow> Readable \<Rightarrow> ('s, unit) async" where
  "write_file_plain this filepath content =
     (let remotePath = fullPath_plain this filepath in
      await (putFileContents (client this) remotePath (Stream content)) (\<lambda>_. resolved ()))"

definition delete_plain :: "('s, 'r) DriverWebDAV \<Rightarrow> string \<Rightarrow> ('s, unit) async" where
  "delete_plain this filepath =
     await (deleteFile (client this) (fullPath_plain this filepath)) (\<lambda>_. resolved ())"

fun list_yields_plain ::
  "('s, 'r) DriverWebDAV \<Rightarrow> string \<Rightarrow> FileStat list \<Rightarrow> string list" where
  "list_yields_plain this cwd [] = []"
| "list_yields_plain this cwd (item # items) =
     (if type item = File \<and> filename item \<noteq> None
      then (let relativePath = relative cwd (root this) (the (filename item))
            in strip_leading_slashes relativePath # list_yields_plain this cwd items)
      else list_yields_plain this cwd items)"

definition list_plain ::
  "('s, 'r) DriverWebDAV \<Rightarrow> string \<Rightarrow> string option \<Rightarrow> ('s, string list) async" where
  "list_plain this cwd prefix_opt =
     (let prefix = (case prefix_opt of None \<Rightarrow> [] | Some p \<Rightarrow> p);
          remotePrefix = fullPath_plain this prefix in
      await (getDirectoryContents (client this) remotePrefix \<lparr> deep = True \<rparr>) (\<lambda>res.
        let contents = unwrap res in
        resolved (list_yields_plain this cwd contents)))"

section \<open>A backend that stores what is written\<close>

text \<open>
  The remote store as the claims about uploads see it: a map from remote paths to the
  bytes of the object there. \<open>stat\<close>, \<open>getFileContents\<close> and \<open>putFileContents\<close> act on this
  map and fail with \<open>NotFound\<close> on a path that holds no object; the other methods of the
  client are left to an arbitrary client \<open>other\<close>. How a reply is shaped (envelope or bare
  value, string or binary data, which fields a \<open>FileStat\<close> carries) is the parameter
  \<open>shape\<close>.
\<close>

type_synonym store = "string \<rightharpoonup> bytes"

record presentation =
  file_reply :: "format \<Rightarrow> bytes \<Rightarrow> raw response"
  stat_reply :: "string \<Rightarrow> bytes \<Rightarrow> FileStat response"

definition store_stat :: "presentation \<Rightarrow> string \<Rightarrow> (store, FileStat response) async" where
  "store_stat shape path files =
     (case files path of
        None \<Rightarrow> (Inl NotFound, files)
      | Some b \<Rightarrow> (Inr (stat_reply shape path b), files))"

definition store_getFileContents ::
  "presentation \<Rightarrow> string \<Rightarrow> contents_options \<Rightarrow> (store, raw response) async" where
  "store_getFileContents shape path opts files =
     (case files path of
        None \<Rightarrow> (Inl NotFound, files)
      | Some b \<Rightarrow> (Inr (file_reply shape (format opts) b), files))"

text \<open>The bytes a request body carries; a stream that fails makes the request fail.\<close>

fun body_bytes :: "body \<Rightarrow> error + bytes" where
  "body_bytes (Data b) = Inr b"
| "body_bytes (Stream r) =
     (case failure r of
        Some e \<Rightarrow> Inl e
      | None \<Rightarrow> Inr (concat (map Buffer_from (pieces r))))"

definition store_putFileContents :: "string \<Rightarrow> body \<Rightarrow> (store, bool) async" where
  "store_putFileContents path b files =
     (case body_bytes b of
        Inl e \<Rightarrow> (Inl e, files)
      | Inr bs \<Rightarrow> (Inr True, files(path \<mapsto> bs)))"

definition store_client ::
  "presentation \<Rightarrow> (store, 'r) WebDAVClient \<Rightarrow> (store, 'r) WebDAVClient" where
  "store_client shape other =
     other \<lparr> client_stat := store_stat shape,
             getFileContents := store_getFileContents shape,
             putFileContents := store_putFileContents \<rparr>"

text \<open>The bytes a piece of content stands for.\<close>

fun denotes :: "raw \<Rightarrow> bytes \<Rightarrow> bool" where
  "denotes (Text s) b = (utf8 s = b)"
| "denotes (ArrayBuffer a) b = (a = b)"
| "denotes (Buffer c) b = (c = b)"

text \<open>The backend hands the bytes \<open>b\<close> of an object back as they are.\<close>

definition returns_faithfully :: "presentation \<Rightarrow> bytes \<Rightarrow> bool" where
  "returns_faithfully shape b = denotes (unwrap (file_reply shape Binary_format b)) b"

text \<open>The backend reports the length of an object as its size, or reports no size.\<close>

definition reports_size :: "presentation \<Rightarrow> string \<Rightarrow> bytes \<Rightarrow> bool" where
  "reports_size shape path b =
     (size (unwrap (stat_reply shape path b)) = None \<or>
      size (unwrap (stat_reply shape path b)) = Some (length b))"

text \<open>The stream delivers the chunk \<open>c\<close>, in any number of pieces, and does not fail.\<close>

definition delivers :: "Readable \<Rightarrow> bytes \<Rightarrow> bool" where
  "delivers content c =
     (failure content = None \<and> concat (map Buffer_from (pieces content)) = c)"

text \<open>The driver over such a backend, with \<open>r\<close> as its root.\<close>

definition store_driver ::
  "presentation \<Rightarrow> (store, 'r) WebDAVClient \<Rightarrow> string \<Rightarrow> (store, 'r) DriverWebDAV" where
  "store_driver shape other r = \<lparr> client = store_client shape other, root = r \<rparr>"

section \<open>Paths there and back\<close>

text \<open>
  What \<open>list\<close> does to the file name of an entry (lines 93 and 94 of both files): the path
  relative to the root, without the slashes it starts with.
\<close>

definition denormalize :: "('s, 'r) DriverWebDAV \<Rightarrow> string \<Rightarrow> string \<Rightarrow> string" where
  "denormalize this cwd remote = strip_leading_slashes (relative cwd (root this) remote)"

text \<open>
  A path is clean when it is empty or each of its segments is a name: not empty (no doubled
  and no trailing slash), not \<open>.\<close> and not \<open>..\<close>.
\<close>

definition proper_segment :: "string \<Rightarrow> bool" where
  "proper_segment s = (s \<noteq> [] \<and> s \<noteq> ''.'' \<and> s \<noteq> ''..'')"

definition clean_path :: "string \<Rightarrow> bool" where
  "clean_path q = (q = [] \<or> list_all proper_segment (split_path q))"

section \<open>Concrete backends\<close>

text \<open>A client without a connection: every call fails.\<close>

definition offline_client :: "('s, unit) WebDAVClient" where
  "offline_client =
     \<lparr> createReadStream = (\<lambda>_ _ s. (Inl NetworkError, s)),
       client_stat = (\<lambda>_ s. (Inl NetworkError, s)),
       moveFile = (\<lambda>_ _ s. (Inl NetworkError, s)),
       copyFile = (\<lambda>_ _ s. (Inl NetworkError, s)),
       putFileContents = (\<lambda>_ _ s. (Inl NetworkError, s)),
       deleteFile = (\<lambda>_ s. (Inl NetworkError, s)),
       getDirectoryContents = (\<lambda>_ _ s. (Inl NetworkError, s)),
       getFileContents = (\<lambda>_ _ s. (Inl NetworkError, s)) \<rparr>"

text \<open>A client that answers every listing request with the same bare list.\<close>

definition listing_client :: "FileStat list \<Rightarrow> (unit, unit) WebDAVClient" where
  "listing_client entries =
     offline_client \<lparr> getDirectoryContents := (\<lambda>_ _ s. (Inr (Bare entries), s)) \<rparr>"

text \<open>
  Replies in an envelope: content as an \<open>ArrayBuffer\<close>, a \<open>FileStat\<close> with the size and a
  date.
\<close>

definition enveloped :: presentation where
  "enveloped =
     \<lparr> file_reply = (\<lambda>_ b. Detailed (ArrayBuffer b)),
       stat_reply = (\<lambda>path b. Detailed
         \<lparr> filename = Some path, type = File, size = Some (length b),
           lastmod = Some ''Mon, 02 Nov 2026 04:59:00 GMT'' \<rparr>) \<rparr>"

text \<open>Bare replies: content as a \<open>Buffer\<close>, a \<open>FileStat\<close> without size and date.\<close>

definition bare :: presentation where
  "bare =
     \<lparr> file_reply = (\<lambda>_ b. Bare (Buffer b)),
       stat_reply = (\<lambda>path b. Bare
         \<lparr> filename = Some path, type = File, size = None, lastmod = None \<rparr>) \<rparr>"

section \<open>Facts about the runtime functions\<close>

lemma push_chunks_eq: "push_chunks cs acc = acc @ map Buffer_from cs"
  by (induction cs arbitrary: acc) simp_all

lemma for_await_delivers:
  "delivers content c \<Longrightarrow> for_await content s = (Inr (map Buffer_from (pieces content)), s)"
  by (simp add: delivers_def for_await_def push_chunks_eq)

lemma subarray_zero: "subarray buf 0 0 = []"
  by (simp add: subarray_def)

lemma subarray_prefix: "0 \<le> k \<Longrightarrow> subarray buf 0 k = take (nat k) buf"
  by (simp add: subarray_def Let_def min_def)

lemma existing_buffer_denotes:
  "denotes x b \<Longrightarrow>
   (case x of
      Text s \<Rightarrow> Buffer_from (Text s)
    | ArrayBuffer a \<Rightarrow> Buffer_from (ArrayBuffer a)
    | Buffer c \<Rightarrow> c) = b"
  by (cases x) simp_all

text \<open>
  The printer writes the decimal numeral of its argument, and no other string is one.
\<close>

lemma digit_cases: "d < 10 \<Longrightarrow> d \<in> {0, 1, 2, 3, 4, 5, 6, 7, 8, 9 :: nat}"
  by auto

lemma digit_char_is_digit: "d < 10 \<Longrightarrow> is_digit (digit_char d)"
  using digit_cases[of d] by (auto simp add: digit_char_def is_digit_def)

lemma digit_value_digit_char: "d < 10 \<Longrightarrow> digit_value (digit_char d) = d"
  using digit_cases[of d] by (auto simp add: digit_char_def digit_value_def)

lemma digit_value_less: "is_digit c \<Longrightarrow> digit_value c < 10"
  by (auto simp add: is_digit_def digit_value_def)

lemma digit_char_digit_value: "is_digit c \<Longrightarrow> digit_char (digit_value c) = c"
  by (auto simp add: is_digit_def digit_value_def digit_char_def)

lemma digit_value_zero: "is_digit c \<Longrightarrow> digit_value c = 0 \<Longrightarrow> c = CHR ''0''"
  by (auto simp add: is_digit_def digit_value_def)

lemma digits_value_snoc: "digits_value (ds @ [c]) = 10 * digits_value ds + digit_value c"
  by (simp add: digits_value_def)

lemma Number_toString_nonempty: "Number_toString n \<noteq> []"
  by (subst Number_toString.simps) simp

lemma Number_toString_digits: "list_all is_digit (Number_toString n)"
proof (induction n rule: Number_toString.induct)
  case (1 n)
  show ?case
  proof (cases "n < 10")
    case True
    then show ?thesis
      by (subst Number_toString.simps) (simp add: digit_char_is_digit)
  next
    case False
    with 1 show ?thesis
      by (subst Number_toString.simps) (simp add: digit_char_is_digit)
  qed
qed

lemma Number_toString_value: "digits_value (Number_toString n) = n"
proof (induction n rule: Number_toString.induct)
  case (1 n)
  show ?case
  proof (cases "n < 10")
    case True
    then show ?thesis
      by (subst Number_toString.simps) (simp add: digits_value_def digit_value_digit_char)
  next
    case False
    with 1 show ?thesis
      by (subst Number_toString.simps) (simp add: digits_value_snoc digit_value_digit_char)
  qed
qed

lemma Number_toString_leading: "n \<noteq> 0 \<Longrightarrow> hd (Number_toString n) \<noteq> CHR ''0''"
proof (induction n rule: Number_toString.induct)
  case (1 n)
  show ?case
  proof (cases "n < 10")
    case True
    with 1(2) have "digit_char n \<noteq> CHR ''0''"
      using digit_value_digit_char[of n] by (auto simp add: digit_value_def)
    with True show ?thesis by (subst Number_toString.simps) simp
  next
    case False
    then have "n div 10 \<noteq> 0" by simp
    with 1(1) False have "hd (Number_toString (n div 10)) \<noteq> CHR ''0''" by simp
    with False show ?thesis
      by (subst Number_toString.simps) (simp add: Number_toString_nonempty)
  qed
qed

lemma Number_toString_zero: "Number_toString 0 = ''0''"
  by (simp add: Number_toString.simps digit_char_def)

lemma Number_toString_decimal: "decimal_numeral (Number_toString n) n"
proof (cases "n = 0")
  case True
  then show ?thesis
    by (simp add: decimal_numeral_def Number_toString_zero is_digit_def digits_value_def digit_value_def)
next
  case False
  then show ?thesis
    by (simp add: decimal_numeral_def Number_toString_nonempty Number_toString_digits
        Number_toString_value Number_toString_leading)
qed

lemma digits_value_positive:
  "ds \<noteq> [] \<Longrightarrow> list_all is_digit ds \<Longrightarrow> hd ds \<noteq> CHR ''0'' \<Longrightarrow> 0 < digits_value ds"
proof (induction ds rule: rev_induct)
  case Nil
  then show ?case by simp
next
  case (snoc c ds)
  show ?case
  proof (cases "ds = []")
    case True
    with snoc.prems have "is_digit c" "c \<noteq> CHR ''0''" by simp_all
    then have "digit_value c \<noteq> 0" using digit_value_zero by blast
    with True show ?thesis by (simp add: digits_value_def)
  next
    case False
    with snoc have "0 < digits_value ds" by simp
    then show ?thesis by (simp add: digits_value_snoc)
  qed
qed

lemma decimal_numeral_unique: "decimal_numeral ds n \<Longrightarrow> ds = Number_toString n"
proof (induction ds arbitrary: n rule: rev_induct)
  case Nil
  then show ?case by (simp add: decimal_numeral_def)
next
  case (snoc c ds)
  from snoc.prems have dig: "list_all is_digit ds" "is_digit c"
    and val: "10 * digits_value ds + digit_value c = n"
    and lead: "ds @ [c] = ''0'' \<or> hd (ds @ [c]) \<noteq> CHR ''0''"
    by (simp_all add: decimal_numeral_def digits_value_snoc)
  have c10: "digit_value c < 10" using dig(2) by (rule digit_value_less)
  show ?case
  proof (cases "ds = []")
    case True
    with val c10 have "n < 10" "digit_value c = n" by (simp_all add: digits_value_def)
    with True dig(2) show ?thesis
      by (subst Number_toString.simps) (auto simp add: digit_char_digit_value)
  next
    case False
    with lead have hd: "hd ds \<noteq> CHR ''0''" by auto
    have pos: "0 < digits_value ds" using False dig(1) hd by (rule digits_value_positive)
    have "decimal_numeral ds (digits_value ds)"
      using False dig(1) hd by (simp add: decimal_numeral_def)
    then have ih: "ds = Number_toString (digits_value ds)" by (rule snoc.IH)
    from val c10 have "n div 10 = digits_value ds" "n mod 10 = digit_value c" by auto
    moreover from val pos have "\<not> n < 10" by simp
    ultimately show ?thesis
      using ih dig(2) by (subst Number_toString.simps) (simp add: digit_char_digit_value)
  qed
qed

lemma split_path_nonempty: "split_path p \<noteq> []"
  by (cases p) simp_all

lemma split_path_append: "split_path (a @ ''/'' @ b) = split_path a @ split_path b"
proof (induction a)
  case Nil
  show ?case by simp
next
  case (Cons c a)
  show ?case
  proof (cases "c = CHR ''/''")
    case True
    with Cons show ?thesis by simp
  next
    case False
    have "split_path a \<noteq> []" by (rule split_path_nonempty)
    with False Cons show ?thesis by simp
  qed
qed

lemma split_path_no_slash: "s \<in> set (split_path p) \<Longrightarrow> CHR ''/'' \<notin> set s"
proof (induction p arbitrary: s)
  case Nil
  then show ?case by simp
next
  case (Cons c p)
  have ne: "split_path p \<noteq> []" by (rule split_path_nonempty)
  show ?case
  proof (cases "c = CHR ''/''")
    case True
    with Cons show ?thesis by auto
  next
    case False
    from Cons.prems False
    have "s = c # hd (split_path p) \<or> s \<in> set (tl (split_path p))" by simp
    then show ?thesis
    proof
      assume s: "s = c # hd (split_path p)"
      have "hd (split_path p) \<in> set (split_path p)" using ne by simp
      then have "CHR ''/'' \<notin> set (hd (split_path p))" by (rule Cons.IH)
      with s False show ?thesis by simp
    next
      assume "s \<in> set (tl (split_path p))"
      then have "s \<in> set (split_path p)" using ne by (metis list.set_sel(2))
      then show ?thesis by (rule Cons.IH)
    qed
  qed
qed

lemma join_path_Cons_char: "join_path ((c # h) # T) = c # join_path (h # T)"
  by (cases T) simp_all

lemma join_split_path: "join_path (split_path q) = q"
proof (induction q)
  case Nil
  show ?case by simp
next
  case (Cons c q)
  obtain h T where S: "split_path q = h # T"
    using split_path_nonempty[of q] by (cases "split_path q") auto
  show ?case
  proof (cases "c = CHR ''/''")
    case True
    with Cons S show ?thesis by simp
  next
    case False
    with Cons S show ?thesis by (simp add: join_path_Cons_char)
  qed
qed

lemma normalize_segments_append:
  "normalize_segments acc (xs @ ys) = normalize_segments (normalize_segments acc xs) ys"
  by (induction xs arbitrary: acc) simp_all

lemma normalize_segments_descend:
  "''..'' \<notin> set ys \<Longrightarrow>
   normalize_segments acc ys = acc @ filter (\<lambda>s. s \<noteq> [] \<and> s \<noteq> ''.'') ys"
  by (induction ys arbitrary: acc) auto

lemma split_strip_trailing:
  "normalize_segments acc (xs @ split_path (strip_trailing_slash r)) =
   normalize_segments acc (xs @ split_path r)"
proof (cases "r \<noteq> [] \<and> last r = CHR ''/''")
  case True
  then have "r = butlast r @ ''/'' @ []"
    by (metis append_butlast_last_id append_Nil2 append_Cons append_Nil)
  then have "split_path r = split_path (butlast r) @ [[]]"
    using split_path_append[of "butlast r" "[]"] by simp
  with True show ?thesis
    by (simp add: strip_trailing_slash_def normalize_segments_append
        del: append_assoc flip: append_assoc)
next
  case False
  then show ?thesis by (auto simp add: strip_trailing_slash_def)
qed

lemma common_length_append: "common_length f (f @ P) = length f"
  by (induction f) simp_all

lemma strip_leading_slash_segments:
  "filter (\<lambda>s. s \<noteq> [] \<and> s \<noteq> ''.'') (split_path (strip_leading_slash p)) =
   filter (\<lambda>s. s \<noteq> [] \<and> s \<noteq> ''.'') (split_path p)"
  by (cases p) (simp_all add: strip_leading_slash_def)

lemma strip_leading_slash_dotdot:
  "''..'' \<notin> set (split_path p) \<Longrightarrow> ''..'' \<notin> set (split_path (strip_leading_slash p))"
  by (cases p) (auto simp add: strip_leading_slash_def split: if_splits)

lemma split_strip_leading_slashes:
  "filter (\<lambda>s. s \<noteq> [] \<and> s \<noteq> ''.'') (split_path p) =
   filter (\<lambda>s. s \<noteq> [] \<and> s \<noteq> ''.'') (split_path (strip_leading_slashes p))"
  by (induction p) (simp_all add: strip_leading_slashes_def)

lemma strip_join_proper:
  assumes "\<forall>s \<in> set P. s \<noteq> [] \<and> CHR ''/'' \<notin> set s"
  shows "strip_leading_slashes (join_path P) = join_path P"
proof (cases P)
  case Nil
  then show ?thesis by (simp add: strip_leading_slashes_def)
next
  case (Cons s T)
  with assms obtain c cs where s: "s = c # cs" "c \<noteq> CHR ''/''"
    by (cases s) auto
  with Cons show ?thesis by (simp add: join_path_Cons_char strip_leading_slashes_def)
qed

section \<open>Facts about the driver\<close>

text \<open>The constructor takes the configured root, and \<open>/\<close> when none is configured.\<close>

lemma root_new_DriverWebDAV:
  "root (new_DriverWebDAV createClient config) =
     (case DriverWebDAVConfig.root config of None \<Rightarrow> ''/'' | Some r \<Rightarrow> r)"
  by (simp add: new_DriverWebDAV_def)

lemma is_absolute_fullPath:
  assumes "root this \<noteq> []"
  shows "is_absolute (fullPath this p) = is_absolute (root this)"
proof (cases "strip_trailing_slash (root this) = []")
  case True
  with assms have "root this = ''/''"
    by (cases "root this" rule: rev_cases)
       (auto simp add: strip_trailing_slash_def split: if_splits)
  then show ?thesis by (simp add: fullPath_def strip_trailing_slash_def is_absolute_def)
next
  case False
  then obtain c cs where r': "strip_trailing_slash (root this) = c # cs"
    by (cases "strip_trailing_slash (root this)") auto
  then have "hd (root this) = c"
    by (cases "root this") (auto simp add: strip_trailing_slash_def split: if_splits)
  with assms r' show ?thesis
    by (cases "root this") (simp_all add: fullPath_def is_absolute_def)
qed

text \<open>
  Resolving a full path: the segments of the resolved root, then the names among the
  segments of the relative path.
\<close>

lemma resolve_fullPath:
  assumes "root this \<noteq> []" and "''..'' \<notin> set (split_path p)"
  shows "resolve_segments cwd (fullPath this p) =
         resolve_segments cwd (root this) @
           filter (\<lambda>s. s \<noteq> [] \<and> s \<noteq> ''.'') (split_path p)"
proof -
  let ?pre = "if is_absolute (root this) then [] else split_path cwd"
  let ?p' = "strip_leading_slash p"
  let ?r' = "strip_trailing_slash (root this)"
  have "resolve_segments cwd (fullPath this p) =
        normalize_segments [] (?pre @ split_path (fullPath this p))"
    by (simp add: resolve_segments_def is_absolute_fullPath[OF assms(1)])
  also have "split_path (fullPath this p) = split_path ?r' @ split_path ?p'"
    unfolding fullPath_def by (rule split_path_append)
  also have "normalize_segments [] (?pre @ split_path ?r' @ split_path ?p') =
        normalize_segments (normalize_segments [] (?pre @ split_path ?r')) (split_path ?p')"
    by (simp add: normalize_segments_append flip: append_assoc)
  also have "normalize_segments [] (?pre @ split_path ?r') =
        normalize_segments [] (?pre @ split_path (root this))"
    by (rule split_strip_trailing)
  also have "normalize_segments [] (?pre @ split_path (root this)) =
        resolve_segments cwd (root this)"
    by (simp add: resolve_segments_def)
  also have "normalize_segments (resolve_segments cwd (root this)) (split_path ?p') =
        resolve_segments cwd (root this) @
          filter (\<lambda>s. s \<noteq> [] \<and> s \<noteq> ''.'') (split_path ?p')"
    using assms(2) by (intro normalize_segments_descend strip_leading_slash_dotdot)
  finally show ?thesis by (simp add: strip_leading_slash_segments)
qed

text \<open>
  There and back, for any path without a \<open>..\<close> segment: what comes back is the path with
  its empty and \<open>.\<close> segments removed.
\<close>

lemma roundtrip_canonical:
  assumes "root this \<noteq> []" and "''..'' \<notin> set (split_path p)"
  shows "denormalize this cwd (fullPath this p) =
         join_path (filter (\<lambda>s. s \<noteq> [] \<and> s \<noteq> ''.'') (split_path p))"
proof -
  let ?P = "filter (\<lambda>s. s \<noteq> [] \<and> s \<noteq> ''.'') (split_path p)"
  let ?f = "resolve_segments cwd (root this)"
  have t: "resolve_segments cwd (fullPath this p) = ?f @ ?P"
    using assms by (rule resolve_fullPath)
  have rel: "relative cwd (root this) (fullPath this p) = join_path ?P"
  proof (cases "?P = []")
    case True
    then show ?thesis by (simp add: relative_def t)
  next
    case False
    then have "root this \<noteq> fullPath this p"
      using t by auto
    with False show ?thesis
      by (simp add: relative_def t common_length_append Let_def)
  qed
  have "\<forall>s \<in> set ?P. s \<noteq> [] \<and> CHR ''/'' \<notin> set s"
    using split_path_no_slash by auto
  then show ?thesis
    by (simp add: denormalize_def rel strip_join_proper)
qed

lemma list_yields_map:
  "list_yields this cwd contents =
   map (\<lambda>item. denormalize this cwd (the (filename item)))
     (filter (\<lambda>item. type item = File \<and> filename item \<noteq> None) contents)"
  by (induction contents) (simp_all add: denormalize_def)

lemma list_yields_plain_eq: "list_yields_plain this cwd items = list_yields this cwd items"
  by (induction items) simp_all

text \<open>
  One \<open>writeChunk\<close> over the storing backend, at any offset: the object becomes the first
  \<open>offset\<close> bytes of what the backend handed over, followed by the chunk.
\<close>

lemma writeChunk_store:
  assumes "files (fullPath (store_driver shape other r) f) = Some old"
    and "delivers content c"
  shows "writeChunk (store_driver shape other r) f content offset ctx files =
     (let existingBuffer =
            (case unwrap (file_reply shape Binary_format old) of
               Text s \<Rightarrow> Buffer_from (Text s)
             | ArrayBuffer a \<Rightarrow> Buffer_from (ArrayBuffer a)
             | Buffer b \<Rightarrow> b);
          newContent = subarray existingBuffer 0 offset @ c
      in (Inr (length newContent),
          files(fullPath (store_driver shape other r) f \<mapsto> newContent)))"
proof -
  have c: "concat (map Buffer_from (pieces content)) = c"
    using assms(2) by (simp add: delivers_def)
  have get: "getFileContents (client (store_driver shape other r)) = store_getFileContents shape"
    and put: "putFileContents (client (store_driver shape other r)) = store_putFileContents"
    by (simp_all add: store_driver_def store_client_def)
  show ?thesis
    unfolding writeChunk_def Let_def get put
    using assms(1)
    by (simp add: await_def resolved_def store_getFileContents_def store_putFileContents_def
        for_await_delivers[OF assms(2)] c)
qed

text \<open>
  Over any backend, a \<open>writeChunk\<close> on an object the backend cannot read fails with the
  backend's error and writes nothing.
\<close>

lemma writeChunk_read_fails:
  assumes "getFileContents (client this) (fullPath this f) \<lparr> format = Binary_format \<rparr> s = (Inl e, s')"
  shows "writeChunk this f content offset ctx s = (Inl e, s')"
  using assms by (simp add: writeChunk_def await_def Let_def)

text \<open>Over any backend, \<open>createChunkedUpload\<close> is one write of a stream without bytes.\<close>

lemma createChunkedUpload_any_backend:
  "createChunkedUpload this f ctx s =
     (case putFileContents (client this) (fullPath this f) (Stream (Readable [Buffer []] None)) s of
        (Inl e, s') \<Rightarrow> (Inl e, s')
      | (Inr _, s') \<Rightarrow> (Inr ctx, s'))"
  by (simp add: createChunkedUpload_def write_file_def await_def resolved_def
      Readable_from_def Buffer_alloc_def split: prod.splits sum.splits)

text \<open>The requests of the two examples of the specification.\<close>

lemma read_range_examples:
  "read this f (Some \<lparr> range = Some \<lparr> start = 10, end_opt = Some 19 \<rparr> \<rparr>) =
     createReadStream (client this) (fullPath this f)
       (Some \<lparr> headers = [(''Range'', ''bytes=10-19'')] \<rparr>)"
  "read this f (Some \<lparr> range = Some \<lparr> start = 5, end_opt = None \<rparr> \<rparr>) =
     createReadStream (client this) (fullPath this f)
       (Some \<lparr> headers = [(''Range'', ''bytes=5-'')] \<rparr>)"
  by (simp_all add: read_def Number_toString.simps digit_char_def)

text \<open>When the listing request fails, \<open>list\<close> fails with the same error.\<close>

lemma list_fetch_fails:
  assumes "getDirectoryContents (client this)
             (fullPath this (case prefix of None \<Rightarrow> [] | Some p \<Rightarrow> p)) \<lparr> deep = True \<rparr> s = (Inl e, s')"
  shows "list this cwd prefix s = (Inl e, s')"
  using assms by (simp add: list_def await_def)

section \<open>The claims\<close>

text \<open>
  C1. On the storing backend, with an empty object at the path of \<open>f\<close>: \<open>writeChunk\<close> of a
  chunk \<open>c1\<close> at offset 0 returns the length of \<open>c1\<close>, and \<open>writeChunk\<close> of a chunk \<open>c2\<close> at the
  offset \<open>length c1\<close> after it returns \<open>length c1 + length c2\<close> and leaves the object with
  the content \<open>c1 @ c2\<close> (the other objects are as before). The backend hands \<open>c1\<close> back
  as it is, in any shape of reply.
\<close>

theorem writeChunk_two_chunks_in_order:
  assumes "files (fullPath (store_driver shape other r) f) = Some []"
    and "returns_faithfully shape c1"
    and "delivers content1 c1"
    and "delivers content2 c2"
  shows "case writeChunk (store_driver shape other r) f content1 0 ctx1 files of
           (result1, files1) \<Rightarrow>
             result1 = Inr (length c1) \<and>
             writeChunk (store_driver shape other r) f content2 (int (length c1)) ctx2 files1 =
               (Inr (length c1 + length c2),
                files(fullPath (store_driver shape other r) f \<mapsto> c1 @ c2))"
proof -
  let ?p = "fullPath (store_driver shape other r) f"
  have first: "writeChunk (store_driver shape other r) f content1 0 ctx1 files =
      (Inr (length c1), files(?p \<mapsto> c1))"
    by (simp add: writeChunk_store[where files = files, OF assms(1,3)] subarray_zero)
  have stored: "(files(?p \<mapsto> c1)) ?p = Some c1" by simp
  have "(case unwrap (file_reply shape Binary_format c1) of
           Text s \<Rightarrow> Buffer_from (Text s)
         | ArrayBuffer a \<Rightarrow> Buffer_from (ArrayBuffer a)
         | Buffer b \<Rightarrow> b) = c1"
    using assms(2) unfolding returns_faithfully_def by (rule existing_buffer_denotes)
  then have second:
    "writeChunk (store_driver shape other r) f content2 (int (length c1)) ctx2 (files(?p \<mapsto> c1)) =
       (Inr (length c1 + length c2), files(?p \<mapsto> c1 @ c2))"
    by (simp add: writeChunk_store[where files = "files(?p \<mapsto> c1)", OF stored assms(4)]
        subarray_prefix)
  show ?thesis by (simp add: first second)
qed

text \<open>An upload of \<open>[1, 2]\<close> and then \<open>[3]\<close>, the first chunk arriving in two pieces.\<close>

theorem writeChunk_two_chunks_in_order_witness:
  "returns_faithfully enveloped [1, 2] \<and>
   delivers (Readable [Buffer [1], ArrayBuffer [2]] None) [1, 2] \<and>
   delivers (Readable [Buffer [3]] None) [3] \<and>
   (case writeChunk (store_driver enveloped offline_client ''/data/'') ''up.bin''
           (Readable [Buffer [1], ArrayBuffer [2]] None) 0 () [''/data/up.bin'' \<mapsto> []] of
      (result1, files1) \<Rightarrow>
        result1 = Inr 2 \<and>
        writeChunk (store_driver enveloped offline_client ''/data/'') ''up.bin''
          (Readable [Buffer [3]] None) 2 () files1 =
          (Inr 3, [''/data/up.bin'' \<mapsto> [1, 2, 3]]))"
proof -
  have p: "fullPath (store_driver enveloped offline_client ''/data/'') ''up.bin'' = ''/data/up.bin''"
    by (simp add: fullPath_def store_driver_def strip_trailing_slash_def strip_leading_slash_def)
  have h1: "[''/data/up.bin'' \<mapsto> []]
              (fullPath (store_driver enveloped offline_client ''/data/'') ''up.bin'') = Some []"
    by (simp add: p)
  have h2: "returns_faithfully enveloped [1, 2]"
    by (simp add: returns_faithfully_def enveloped_def)
  have h3: "delivers (Readable [Buffer [1], ArrayBuffer [2]] None) [1, 2]"
    by (simp add: delivers_def)
  have h4: "delivers (Readable [Buffer [3]] None) [3]"
    by (simp add: delivers_def)
  show ?thesis
    using writeChunk_two_chunks_in_order
            [where files = "[''/data/up.bin'' \<mapsto> []]" and ?ctx1.0 = "()" and ?ctx2.0 = "()",
             OF h1 h2 h3 h4] h2 h3 h4
    by (simp add: p numeral_2_eq_2 numeral_3_eq_3)
qed

text \<open>
  C2. On the storing backend, with any object \<open>old\<close> at the path of \<open>f\<close> (of length
  \<open>N > 0\<close> or empty): \<open>writeChunk\<close> of a chunk \<open>c\<close> at offset 0 returns the length of \<open>c\<close>
  and leaves the object with exactly the bytes of \<open>c\<close>; nothing of \<open>old\<close> is kept, whatever
  the backend handed over as the old content.
\<close>

theorem writeChunk_offset_zero_replaces:
  assumes "files (fullPath (store_driver shape other r) f) = Some old"
    and "delivers content c"
  shows "writeChunk (store_driver shape other r) f content 0 ctx files =
           (Inr (length c), files(fullPath (store_driver shape other r) f \<mapsto> c))"
  by (simp add: writeChunk_store[where files = files, OF assms] subarray_zero)

text \<open>Three old bytes are replaced by a chunk of two.\<close>

theorem writeChunk_offset_zero_replaces_witness:
  "delivers (Readable [Buffer [7, 8]] None) [7, 8] \<and>
   writeChunk (store_driver bare offline_client ''/data'') ''/up.bin''
     (Readable [Buffer [7, 8]] None) 0 () [''/data/up.bin'' \<mapsto> [1, 2, 3]] =
     (Inr 2, [''/data/up.bin'' \<mapsto> [7, 8]])"
proof -
  have p: "fullPath (store_driver bare offline_client ''/data'') ''/up.bin'' = ''/data/up.bin''"
    by (simp add: fullPath_def store_driver_def strip_trailing_slash_def strip_leading_slash_def)
  have h1: "[''/data/up.bin'' \<mapsto> [1, 2, 3]]
              (fullPath (store_driver bare offline_client ''/data'') ''/up.bin'') = Some [1, 2, 3]"
    by (simp add: p)
  have h2: "delivers (Readable [Buffer [7, 8]] None) [7, 8]"
    by (simp add: delivers_def)
  show ?thesis
    using writeChunk_offset_zero_replaces
            [where files = "[''/data/up.bin'' \<mapsto> [1, 2, 3]]" and ctx = "()", OF h1 h2] h2
    by (simp add: p)
qed

text \<open>
  C9. On the storing backend, with an object \<open>old\<close> of length \<open>N\<close> at the path of \<open>f\<close>, handed
  back as it is: \<open>writeChunk\<close> of a chunk \<open>c\<close> at an offset above \<open>N\<close> leaves the object with
  \<open>old @ c\<close>, without padding, and returns \<open>N + length c\<close>, which is not
  \<open>offset + length c\<close>.
\<close>

theorem writeChunk_offset_beyond_end:
  assumes "files (fullPath (store_driver shape other r) f) = Some old"
    and "returns_faithfully shape old"
    and "delivers content c"
    and "int (length old) < offset"
  shows "writeChunk (store_driver shape other r) f content offset ctx files =
           (Inr (length old + length c),
            files(fullPath (store_driver shape other r) f \<mapsto> old @ c)) \<and>
         int (length old + length c) \<noteq> offset + int (length c)"
proof -
  have "(case unwrap (file_reply shape Binary_format old) of
           Text s \<Rightarrow> Buffer_from (Text s)
         | ArrayBuffer a \<Rightarrow> Buffer_from (ArrayBuffer a)
         | Buffer b \<Rightarrow> b) = old"
    using assms(2) unfolding returns_faithfully_def by (rule existing_buffer_denotes)
  moreover have "subarray old 0 offset = old"
    using assms(4) by (simp add: subarray_prefix)
  ultimately show ?thesis
    using assms(4) by (simp add: writeChunk_store[where files = files, OF assms(1,3)])
qed

text \<open>Three bytes, a chunk of one byte at offset 10: four bytes, not eleven.\<close>

theorem writeChunk_offset_beyond_end_witness:
  "returns_faithfully bare [1, 2, 3] \<and>
   delivers (Readable [Buffer [9]] None) [9] \<and>
   writeChunk (store_driver bare offline_client ''/'') ''up.bin''
     (Readable [Buffer [9]] None) 10 () [''/up.bin'' \<mapsto> [1, 2, 3]] =
     (Inr 4, [''/up.bin'' \<mapsto> [1, 2, 3, 9]])"
proof -
  have p: "fullPath (store_driver bare offline_client ''/'') ''up.bin'' = ''/up.bin''"
    by (simp add: fullPath_def store_driver_def strip_trailing_slash_def strip_leading_slash_def)
  have h1: "[''/up.bin'' \<mapsto> [1, 2, 3]]
              (fullPath (store_driver bare offline_client ''/'') ''up.bin'') = Some [1, 2, 3]"
    by (simp add: p)
  have h2: "returns_faithfully bare [1, 2, 3]"
    by (simp add: returns_faithfully_def bare_def)
  have h3: "delivers (Readable [Buffer [9]] None) [9]"
    by (simp add: delivers_def)
  have h4: "int (length [1, 2, 3 :: byte]) < 10"
    by simp
  show ?thesis
    using writeChunk_offset_beyond_end
            [where files = "[''/up.bin'' \<mapsto> [1, 2, 3]]" and ctx = "()", OF h1 h2 h3 h4] h2 h3
    by (simp add: p)
qed

text \<open>
  C4. On the storing backend, whose \<open>stat\<close> reports the length of an object as its size or
  reports no size: \<open>createChunkedUpload\<close> for \<open>f\<close> and \<open>ctx\<close> returns \<open>ctx\<close>, leaves an object
  without bytes at the path of \<open>f\<close> and every other object as it was, and \<open>stat\<close> of \<open>f\<close>
  right after it returns the size 0.
\<close>

theorem createChunkedUpload_then_stat:
  assumes "reports_size shape (fullPath (store_driver shape other r) f) []"
  shows "case createChunkedUpload (store_driver shape other r) f ctx files of
           (result, files') \<Rightarrow>
             result = Inr ctx \<and>
             files' = files(fullPath (store_driver shape other r) f \<mapsto> []) \<and>
             (\<exists>m. stat (store_driver shape other r) f files' = (Inr m, files') \<and>
                  meta_size m = 0)"
proof -
  let ?d = "store_driver shape other r"
  have put: "putFileContents (client ?d) = store_putFileContents"
    and st: "client_stat (client ?d) = store_stat shape"
    by (simp_all add: store_driver_def store_client_def)
  have create: "createChunkedUpload ?d f ctx files = (Inr ctx, files(fullPath ?d f \<mapsto> []))"
    by (simp add: createChunkedUpload_def write_file_def put await_def resolved_def
        store_putFileContents_def Readable_from_def Buffer_alloc_def)
  have "size (unwrap (stat_reply shape (fullPath ?d f) [])) = None \<or>
        size (unwrap (stat_reply shape (fullPath ?d f) [])) = Some 0"
    using assms by (simp add: reports_size_def)
  then have "\<exists>m. stat ?d f (files(fullPath ?d f \<mapsto> [])) =
                   (Inr m, files(fullPath ?d f \<mapsto> [])) \<and> meta_size m = 0"
    by (auto simp add: stat_def st await_def resolved_def store_stat_def Let_def)
  then show ?thesis by (simp add: create)
qed

text \<open>An upload created over an object of three bytes, the context being the number 5.\<close>

theorem createChunkedUpload_then_stat_witness:
  "reports_size enveloped ''/data/up.bin'' [] \<and>
   (case createChunkedUpload (store_driver enveloped offline_client ''/data'') ''up.bin''
           (5 :: nat) [''/data/up.bin'' \<mapsto> [1, 2, 3]] of
      (result, files') \<Rightarrow>
        result = Inr 5 \<and>
        files' = [''/data/up.bin'' \<mapsto> []] \<and>
        (\<exists>m. stat (store_driver enveloped offline_client ''/data'') ''up.bin'' files' =
                (Inr m, files') \<and> meta_size m = 0))"
proof -
  have p: "fullPath (store_driver enveloped offline_client ''/data'') ''up.bin'' = ''/data/up.bin''"
    by (simp add: fullPath_def store_driver_def strip_trailing_slash_def strip_leading_slash_def)
  have h: "reports_size enveloped
             (fullPath (store_driver enveloped offline_client ''/data'') ''up.bin'') []"
    by (simp add: reports_size_def enveloped_def)
  show ?thesis
    using createChunkedUpload_then_stat[OF h, of "5 :: nat" "[''/data/up.bin'' \<mapsto> [1, 2, 3]]"] h
    by (simp add: p)
qed

text \<open>
  C5. Over any backend and in any of its states, \<open>exists\<close> never throws; it returns \<open>true\<close>
  exactly when the backend's \<open>stat\<close> on the full path of \<open>f\<close> succeeds and \<open>false\<close> exactly
  when that call fails, whatever the error; the backend is left as that one call left it.
\<close>

theorem exists_iff_stat_succeeds:
  "(\<exists>b. fst (exists this f s) = Inr b) \<and>
   (fst (exists this f s) = Inr True \<longleftrightarrow>
      (\<exists>reply. fst (client_stat (client this) (fullPath this f) s) = Inr reply)) \<and>
   (fst (exists this f s) = Inr False \<longleftrightarrow>
      (\<exists>e. fst (client_stat (client this) (fullPath this f) s) = Inl e)) \<and>
   snd (exists this f s) = snd (client_stat (client this) (fullPath this f) s)"
  by (cases "client_stat (client this) (fullPath this f) s";
      cases "fst (client_stat (client this) (fullPath this f) s)")
     (auto simp add: exists_def try_catch_def await_def resolved_def)

text \<open>
  C6. Over any backend, \<open>read\<close> is one \<open>createReadStream\<close> call on the full path of \<open>f\<close>.
  For a start and an end that are safe integers, with \<open>da\<close> and \<open>db\<close> their decimal
  numerals: with a range that has an end, the only header of the call is
  \<open>Range: bytes=da-db\<close>; with a range without an end, \<open>Range: bytes=da-\<close>. Without a range
  or without options, the call has no options, so no header at all.
\<close>

theorem read_range_header:
  assumes "a \<le> MAX_SAFE_INTEGER" and "b \<le> MAX_SAFE_INTEGER"
    and "decimal_numeral da a" and "decimal_numeral db b"
  shows
  "read this f (Some \<lparr> range = Some \<lparr> start = a, end_opt = Some b \<rparr> \<rparr>) =
     createReadStream (client this) (fullPath this f)
       (Some \<lparr> headers = [(''Range'', ''bytes='' @ da @ ''-'' @ db)] \<rparr>) \<and>
   read this f (Some \<lparr> range = Some \<lparr> start = a, end_opt = None \<rparr> \<rparr>) =
     createReadStream (client this) (fullPath this f)
       (Some \<lparr> headers = [(''Range'', ''bytes='' @ da @ ''-'')] \<rparr>) \<and>
   read this f (Some \<lparr> range = None \<rparr>) =
     createReadStream (client this) (fullPath this f) None \<and>
   read this f None = createReadStream (client this) (fullPath this f) None"
proof -
  have "da = Number_toString a" "db = Number_toString b"
    using assms(3,4) by (simp_all add: decimal_numeral_unique)
  then show ?thesis by (simp add: read_def)
qed

text \<open>The range from 10 to 19, and the range from 10 on.\<close>

theorem read_range_header_witness:
  "(10 :: nat) \<le> MAX_SAFE_INTEGER \<and> (19 :: nat) \<le> MAX_SAFE_INTEGER \<and>
   decimal_numeral ''10'' 10 \<and> decimal_numeral ''19'' 19 \<and>
   read \<lparr> client = offline_client :: (unit, unit) WebDAVClient, root = ''/data'' \<rparr> ''a.bin''
     (Some \<lparr> range = Some \<lparr> start = 10, end_opt = Some 19 \<rparr> \<rparr>) =
     createReadStream (offline_client :: (unit, unit) WebDAVClient) ''/data/a.bin''
       (Some \<lparr> headers = [(''Range'', ''bytes=10-19'')] \<rparr>) \<and>
   read \<lparr> client = offline_client :: (unit, unit) WebDAVClient, root = ''/data'' \<rparr> ''a.bin''
     (Some \<lparr> range = Some \<lparr> start = 10, end_opt = None \<rparr> \<rparr>) =
     createReadStream (offline_client :: (unit, unit) WebDAVClient) ''/data/a.bin''
       (Some \<lparr> headers = [(''Range'', ''bytes=10-'')] \<rparr>)"
proof -
  let ?d = "\<lparr> client = offline_client :: (unit, unit) WebDAVClient, root = ''/data'' \<rparr>"
  have h1: "(10 :: nat) \<le> MAX_SAFE_INTEGER" and h2: "(19 :: nat) \<le> MAX_SAFE_INTEGER"
    by (simp_all add: MAX_SAFE_INTEGER_def)
  have h3: "decimal_numeral ''10'' 10" and h4: "decimal_numeral ''19'' 19"
    by (simp_all add: decimal_numeral_def is_digit_def digits_value_def digit_value_def)
  have p: "fullPath ?d ''a.bin'' = ''/data/a.bin''"
    by (simp add: fullPath_def strip_trailing_slash_def strip_leading_slash_def)
  show ?thesis
    using read_range_header[OF h1 h2 h3 h4, of ?d "''a.bin''"] h1 h2 h3 h4
    by (simp add: p)
qed

text \<open>
  C7. Over any backend: when the backend's \<open>stat\<close> on the full path of \<open>f\<close> answers with a
  \<open>FileStat\<close>, in an envelope or bare, \<open>stat\<close> returns without an error; the size is the
  reported size, and 0 when none is reported; the date is the one made from the reported
  \<open>lastmod\<close>, and the current time when none is reported (an empty \<open>lastmod\<close> string is no
  report).
\<close>

theorem stat_unwraps_and_defaults:
  assumes "client_stat (client this) (fullPath this f) s = (Inr reply, s')"
    and "reply = Detailed fileStat \<or> reply = Bare fileStat"
  shows "\<exists>m. stat this f s = (Inr m, s') \<and>
           meta_size m = (case size fileStat of None \<Rightarrow> 0 | Some n \<Rightarrow> n) \<and>
           modified m = (case lastmod fileStat of
                           None \<Rightarrow> Date_now
                         | Some l \<Rightarrow> if l = [] then Date_now else Date_of l)"
  using assms by (auto simp add: stat_def await_def resolved_def split: option.splits)

text \<open>A bare reply without size and date for an object of three bytes.\<close>

theorem stat_unwraps_and_defaults_witness:
  "\<exists>m. stat (store_driver bare offline_client ''/data'') ''a.txt'' [''/data/a.txt'' \<mapsto> [1, 2, 3]] =
         (Inr m, [''/data/a.txt'' \<mapsto> [1, 2, 3]]) \<and>
       meta_size m = 0 \<and> modified m = Date_now"
proof -
  let ?fs = "\<lparr> filename = Some ''/data/a.txt'', type = File, size = None, lastmod = None \<rparr>"
  have h1: "client_stat (client (store_driver bare offline_client ''/data''))
              (fullPath (store_driver bare offline_client ''/data'') ''a.txt'')
              [''/data/a.txt'' \<mapsto> [1, 2, 3]] =
            (Inr (Bare ?fs), [''/data/a.txt'' \<mapsto> [1, 2, 3]])"
    by (simp add: fullPath_def store_driver_def store_client_def store_stat_def bare_def
        strip_trailing_slash_def strip_leading_slash_def)
  have h2: "Bare ?fs = Detailed ?fs \<or> Bare ?fs = Bare ?fs"
    by simp
  show ?thesis
    using stat_unwraps_and_defaults[OF h1 h2] by simp
qed

text \<open>
  C8. Over any backend: when the one deep listing request on the full path of the prefix
  answers with entries, in an envelope or bare, and every entry has a string as its file
  name, \<open>list\<close> yields, in the order of the entries, the root-relative path of each entry
  of type \<open>file\<close> and nothing for the other entries; the set of yielded paths is the set
  of the root-relative paths of the file entries. The backend is left as that one request
  left it.
\<close>

theorem list_yields_files:
  assumes "getDirectoryContents (client this)
             (fullPath this (case prefix of None \<Rightarrow> [] | Some p \<Rightarrow> p)) \<lparr> deep = True \<rparr> s =
           (Inr reply, s')"
    and "reply = Detailed contents \<or> reply = Bare contents"
    and "list_all (\<lambda>item. filename item \<noteq> None) contents"
  shows "\<exists>paths. list this cwd prefix s = (Inr paths, s') \<and>
           paths = map (\<lambda>item. denormalize this cwd (the (filename item)))
                     (filter (\<lambda>item. type item = File) contents) \<and>
           set paths = (\<lambda>item. denormalize this cwd (the (filename item))) `
                         {item. item \<in> set contents \<and> type item = File}"
proof -
  have "filter (\<lambda>item. type item = File \<and> filename item \<noteq> None) contents =
        filter (\<lambda>item. type item = File) contents"
    using assms(3) by (intro filter_cong) (auto simp add: list_all_iff)
  moreover have "unwrap reply = contents" using assms(2) by auto
  ultimately show ?thesis
    using assms(1) by (simp add: list_def await_def resolved_def list_yields_map Let_def)
qed

text \<open>Three files and one directory under the root \<open>/data\<close>.\<close>

theorem list_yields_files_witness:
  "fst (list \<lparr> client = listing_client
                [\<lparr> filename = Some ''/data/a.txt'', type = File, size = Some 1, lastmod = None \<rparr>,
                 \<lparr> filename = Some ''/data/sub'', type = Directory, size = Some 0, lastmod = None \<rparr>,
                 \<lparr> filename = Some ''/data/sub/b.txt'', type = File, size = Some 2, lastmod = None \<rparr>,
                 \<lparr> filename = Some ''/data/sub/c.txt'', type = File, size = Some 3, lastmod = None \<rparr>],
              root = ''/data'' \<rparr> ''/srv'' None ()) =
   Inr [''a.txt'', ''sub/b.txt'', ''sub/c.txt'']"
proof -
  let ?entries =
    "[\<lparr> filename = Some ''/data/a.txt'', type = File, size = Some 1, lastmod = None \<rparr>,
      \<lparr> filename = Some ''/data/sub'', type = Directory, size = Some 0, lastmod = None \<rparr>,
      \<lparr> filename = Some ''/data/sub/b.txt'', type = File, size = Some 2, lastmod = None \<rparr>,
      \<lparr> filename = Some ''/data/sub/c.txt'', type = File, size = Some 3, lastmod = None \<rparr>]"
  let ?d = "\<lparr> client = listing_client ?entries, root = ''/data'' \<rparr>"
  have h1: "getDirectoryContents (client ?d)
              (fullPath ?d (case None of None \<Rightarrow> [] | Some p \<Rightarrow> p)) \<lparr> deep = True \<rparr> () =
            (Inr (Bare ?entries), ())"
    by (simp add: listing_client_def)
  have h2: "Bare ?entries = Detailed ?entries \<or> Bare ?entries = Bare ?entries"
    by simp
  have h3: "list_all (\<lambda>item. filename item \<noteq> None) ?entries"
    by simp
  show ?thesis
    using list_yields_files[OF h1 h2 h3, of "''/srv''"]
    by (auto simp add: denormalize_def relative_def resolve_segments_def is_absolute_def
        strip_leading_slashes_def Let_def)
qed

text \<open>
  C3, amended. For every root other than the empty string, every working
  directory and every path \<open>p\<close> that is clean once the slashes it starts with are removed:
  the full path of \<open>p\<close>, taken back through \<open>relative\<close> and stripped of leading slashes, is
  \<open>p\<close> without the slashes it starts with.
\<close>

theorem roundtrip_clean_path:
  assumes "root this \<noteq> []" and "clean_path (strip_leading_slashes p)"
  shows "denormalize this cwd (fullPath this p) = strip_leading_slashes p"
proof -
  let ?q = "strip_leading_slashes p"
  let ?ok = "\<lambda>s. s \<noteq> [] \<and> s \<noteq> ''.''"
  have filt: "filter ?ok (split_path p) = filter ?ok (split_path ?q)"
    by (rule split_strip_leading_slashes)
  show ?thesis
  proof (cases "?q = []")
    case True
    then have "filter ?ok (split_path p) = []" using filt by simp
    moreover from this have "''..'' \<notin> set (split_path p)"
      by (auto simp add: filter_empty_conv)
    ultimately show ?thesis using True roundtrip_canonical[OF assms(1)] by simp
  next
    case False
    with assms(2) have all: "list_all proper_segment (split_path ?q)"
      by (simp add: clean_path_def)
    then have same: "filter ?ok (split_path ?q) = split_path ?q"
      by (auto simp add: list_all_iff proper_segment_def filter_id_conv)
    have "''..'' \<notin> set (filter ?ok (split_path p))"
      using all unfolding filt same by (auto simp add: list_all_iff proper_segment_def)
    then have "''..'' \<notin> set (split_path p)" by auto
    then show ?thesis
      using roundtrip_canonical[OF assms(1)] by (simp add: filt same join_split_path)
  qed
qed

text \<open>The path \<open>//docs/a.txt\<close> under the root \<open>/data/\<close>.\<close>

theorem roundtrip_clean_path_witness:
  "clean_path (strip_leading_slashes ''//docs/a.txt'') \<and>
   fullPath \<lparr> client = offline_client :: (unit, unit) WebDAVClient, root = ''/data/'' \<rparr>
     ''//docs/a.txt'' = ''/data//docs/a.txt'' \<and>
   denormalize \<lparr> client = offline_client :: (unit, unit) WebDAVClient, root = ''/data/'' \<rparr> ''/srv''
     ''/data//docs/a.txt'' = ''docs/a.txt''"
proof -
  let ?d = "\<lparr> client = offline_client :: (unit, unit) WebDAVClient, root = ''/data/'' \<rparr>"
  have h1: "root ?d \<noteq> []" by simp
  have h2: "clean_path (strip_leading_slashes ''//docs/a.txt'')"
    by (simp add: clean_path_def strip_leading_slashes_def proper_segment_def)
  have p: "fullPath ?d ''//docs/a.txt'' = ''/data//docs/a.txt''"
    by (simp add: fullPath_def strip_trailing_slash_def strip_leading_slash_def)
  show ?thesis
    using roundtrip_clean_path[OF h1 h2, of "''/srv''"] h2
    by (simp add: p strip_leading_slashes_def)
qed

text \<open>
  The claim as it is written fails on a path with a doubled slash, which has no \<open>..\<close>
  segment: \<open>a//b\<close> comes back as \<open>a/b\<close>. It fails for the empty root as well, where the
  full path is absolute and the root is resolved against the working directory: under
  \<open>/srv\<close>, \<open>a\<close> comes back as \<open>../a\<close>.
\<close>

theorem roundtrip_counterexample:
  "''..'' \<notin> set (split_path ''a//b'') \<and>
   denormalize \<lparr> client = offline_client :: (unit, unit) WebDAVClient, root = ''/data'' \<rparr> ''/srv''
     (fullPath \<lparr> client = offline_client :: (unit, unit) WebDAVClient, root = ''/data'' \<rparr> ''a//b'')
     = ''a/b'' \<and>
   ''a/b'' \<noteq> strip_leading_slashes ''a//b'' \<and>
   ''..'' \<notin> set (split_path ''a'') \<and>
   denormalize \<lparr> client = offline_client :: (unit, unit) WebDAVClient, root = [] \<rparr> ''/srv''
     (fullPath \<lparr> client = offline_client :: (unit, unit) WebDAVClient, root = [] \<rparr> ''a'')
     = ''../a'' \<and>
   ''../a'' \<noteq> strip_leading_slashes ''a''"
  by (simp add: denormalize_def fullPath_def relative_def resolve_segments_def is_absolute_def
      strip_trailing_slash_def strip_leading_slash_def strip_leading_slashes_def Let_def)

text \<open>
  C10. The methods of the class in \<open>webdav.ts\<close> and the methods of the same names of the
  class in \<open>index.ts\<close> are equal as functions: the path normalizer, \<open>read\<close>, \<open>stat\<close>,
  \<open>exists\<close>, \<open>move\<close>, \<open>copy\<close>, \<open>write\<close>, \<open>delete\<close>, \<open>list\<close> and the constructor. Over every
  backend, in every state and for all arguments they issue the same calls and return the
  same results.
\<close>

theorem plain_driver_equals_tus_driver:
  "(fullPath_plain :: ('s, 'r) DriverWebDAV \<Rightarrow> _) = fullPath \<and>
   (read_plain :: ('s, 'r) DriverWebDAV \<Rightarrow> _) = read \<and>
   (stat_plain :: ('s, 'r) DriverWebDAV \<Rightarrow> _) = stat \<and>
   (exists_plain :: ('s, 'r) DriverWebDAV \<Rightarrow> _) = exists \<and>
   (move_plain :: ('s, 'r) DriverWebDAV \<Rightarrow> _) = move \<and>
   (copy_plain :: ('s, 'r) DriverWebDAV \<Rightarrow> _) = copy \<and>
   (write_file_plain :: ('s, 'r) DriverWebDAV \<Rightarrow> _) = write_file \<and>
   (delete_plain :: ('s, 'r) DriverWebDAV \<Rightarrow> _) = delete \<and>
   (list_plain :: ('s, 'r) DriverWebDAV \<Rightarrow> _) = list \<and>
   (new_DriverWebDAV_plain :: _ \<Rightarrow> _ \<Rightarrow> ('s, 'r) DriverWebDAV) = new_DriverWebDAV"
proof -
  have fp: "(fullPath_plain :: ('s, 'r) DriverWebDAV \<Rightarrow> _) = fullPath"
    by (simp add: fun_eq_iff fullPath_plain_def fullPath_def)
  have "(read_plain :: ('s, 'r) DriverWebDAV \<Rightarrow> _) = read"
    by (simp add: fun_eq_iff read_plain_def read_def fp)
  moreover have "(stat_plain :: ('s, 'r) DriverWebDAV \<Rightarrow> _) = stat"
    by (simp add: fun_eq_iff stat_plain_def stat_def fp)
  moreover have "(exists_plain :: ('s, 'r) DriverWebDAV \<Rightarrow> _) = exists"
    by (simp add: fun_eq_iff exists_plain_def exists_def fp)
  moreover have "(move_plain :: ('s, 'r) DriverWebDAV \<Rightarrow> _) = move"
    by (simp add: fun_eq_iff move_plain_def move_def fp)
  moreover have "(copy_plain :: ('s, 'r) DriverWebDAV \<Rightarrow> _) = copy"
    by (simp add: fun_eq_iff copy_plain_def copy_def fp)
  moreover have "(write_file_plain :: ('s, 'r) DriverWebDAV \<Rightarrow> _) = write_file"
    by (simp add: fun_eq_iff write_file_plain_def write_file_def fp)
  moreover have "(delete_plain :: ('s, 'r) DriverWebDAV \<Rightarrow> _) = delete"
    by (simp add: fun_eq_iff delete_plain_def delete_def fp)
  moreover have "(list_plain :: ('s, 'r) DriverWebDAV \<Rightarrow> _) = list"
    by (simp add: fun_eq_iff list_plain_def list_def fp list_yields_plain_eq)
  moreover have "(new_DriverWebDAV_plain :: _ \<Rightarrow> _ \<Rightarrow> ('s, 'r) DriverWebDAV) = new_DriverWebDAV"
    by (simp add: fun_eq_iff new_DriverWebDAV_plain_def new_DriverWebDAV_def)
  ultimately show ?thesis using fp by simp
qed

end
